theory Spec2Isabelle
  imports Main "HOL-Library.Sublist" "HOL-Library.Multiset"
begin

section \<open>Strings\<close>

text \<open>
  Python strings are modelled as lists of 8-bit characters (code points below 256).
  The helpers below are the \<^verbatim>\<open>str\<close> methods and operators that \<^verbatim>\<open>query.py\<close> calls.
\<close>

definition startswith :: "string \<Rightarrow> string \<Rightarrow> bool" where
  \<comment> \<open>\<^verbatim>\<open>s.startswith(p)\<close>\<close>
  "startswith s p \<longleftrightarrow> take (length p) s = p"

definition endswith :: "string \<Rightarrow> string \<Rightarrow> bool" where
  \<comment> \<open>\<^verbatim>\<open>s.endswith(p)\<close>\<close>
  "endswith s p \<longleftrightarrow> length p \<le> length s \<and> drop (length s - length p) s = p"

fun contains :: "string \<Rightarrow> string \<Rightarrow> bool" where
  \<comment> \<open>\<^verbatim>\<open>key in s\<close>: \<open>key\<close> starts at some position of \<open>s\<close>\<close>
  "contains [] key = (key = [])"
| "contains (c # cs) key = (startswith (c # cs) key \<or> contains cs key)"

definition isspace :: "char \<Rightarrow> bool" where
  \<comment> \<open>the code points below 256 that \<^verbatim>\<open>str.isspace\<close> accepts\<close>
  "isspace c \<longleftrightarrow> (of_char c :: nat) \<in> {9, 10, 11, 12, 13, 28, 29, 30, 31, 32, 133, 160}"

definition isdigit :: "char \<Rightarrow> bool" where
  \<comment> \<open>the code points below 256 that the regular expression class \<^verbatim>\<open>\d\<close> accepts\<close>
  "isdigit c \<longleftrightarrow> c \<in> set ''0123456789''"

fun split_words :: "string \<Rightarrow> string \<Rightarrow> string list" where
  \<comment> \<open>the scan of \<^verbatim>\<open>str.split()\<close>; \<open>cur\<close> is the current word, reversed\<close>
  "split_words cur [] = (if cur = [] then [] else [rev cur])"
| "split_words cur (c # cs) =
     (if isspace c then (if cur = [] then split_words [] cs else rev cur # split_words [] cs)
      else split_words (c # cur) cs)"

definition py_split :: "string \<Rightarrow> string list" where
  \<comment> \<open>\<^verbatim>\<open>s.split()\<close>: the maximal runs of non-whitespace characters\<close>
  "py_split s = split_words [] s"

fun join :: "string \<Rightarrow> string list \<Rightarrow> string" where
  \<comment> \<open>\<^verbatim>\<open>sep.join(xs)\<close>\<close>
  "join sep [] = []"
| "join sep [x] = x"
| "join sep (x # y # ys) = x @ sep @ join sep (y # ys)"

definition digit_value :: "char \<Rightarrow> int" where
  "digit_value c = int (of_char c) - 48"

definition digits_int :: "string \<Rightarrow> int" where
  \<comment> \<open>the number that a string of decimal digits writes; leading zeros count for nothing\<close>
  "digits_int s = foldl (\<lambda>n c. 10 * n + digit_value c) 0 s"

definition digit_char :: "nat \<Rightarrow> char" where
  "digit_char d = ''0123456789'' ! d"

fun str_nat :: "nat \<Rightarrow> string" where
  "str_nat n = (if n < 10 then [digit_char n] else str_nat (n div 10) @ [digit_char (n mod 10)])"

declare str_nat.simps [simp del]

definition str_int :: "int \<Rightarrow> string" where
  \<comment> \<open>\<^verbatim>\<open>"%s" % n\<close> for an integer\<close>
  "str_int n = (if n < 0 then CHR ''-'' # str_nat (nat (- n)) else str_nat (nat n))"

section \<open>Regular expressions\<close>

text \<open>
  The three key regexps are sequences of literal characters and greedy one-or-more
  repetitions of a character class, some of them capture groups. \<open>rmatch\<close> is
  \<^verbatim>\<open>pattern.match(s)\<close> for such a sequence: anchored at the start of \<open>s\<close>, not at
  its end; a repetition first takes as many characters as it can and gives them
  back one at a time while the rest of the pattern fails (backtracking). The result
  is the list of the groups and the unmatched rest of \<open>s\<close>.
\<close>

datatype piece = Lit char | Plus "char \<Rightarrow> bool" | Group_plus "char \<Rightarrow> bool"

fun greedy_plus :: "(char \<Rightarrow> bool) \<Rightarrow> (string \<Rightarrow> 'a option) \<Rightarrow> string \<Rightarrow> (string \<times> 'a) option" where
  \<comment> \<open>\<open>k\<close> is the rest of the pattern; a longer repetition is tried before a shorter\<close>
  "greedy_plus cls k [] = None"
| "greedy_plus cls k (c # cs) =
     (if cls c then
        (case greedy_plus cls k cs of
           Some (g, r) \<Rightarrow> Some (c # g, r)
         | None \<Rightarrow> (case k cs of Some r \<Rightarrow> Some ([c], r) | None \<Rightarrow> None))
      else None)"

fun rmatch :: "piece list \<Rightarrow> string \<Rightarrow> (string list \<times> string) option" where
  "rmatch [] s = Some ([], s)"
| "rmatch (Lit c # ps) [] = None"
| "rmatch (Lit c # ps) (x # xs) = (if x = c then rmatch ps xs else None)"
| "rmatch (Plus cls # ps) s = map_option snd (greedy_plus cls (rmatch ps) s)"
| "rmatch (Group_plus cls # ps) s =
     map_option (\<lambda>(g, (gs, rest)). (g # gs, rest)) (greedy_plus cls (rmatch ps) s)"

text \<open>
  A replacement template is text with references to the whole match (\<^verbatim>\<open>\g<0>\<close>).
\<close>

datatype repl_item = Rtext string | Rgroup0

fun expand :: "repl_item list \<Rightarrow> string \<Rightarrow> string" where
  "expand [] m = []"
| "expand (Rtext t # is) m = t @ expand is m"
| "expand (Rgroup0 # is) m = m @ expand is m"

text \<open>
  The scan of \<^verbatim>\<open>re.sub\<close>: the leftmost match is replaced, the scan goes on behind
  it, and an empty match is followed by one copied character. \<open>lim\<close> is the number of
  replacements still allowed, \<open>None\<close> when there is no limit.
\<close>

function sub_loop :: "piece list \<Rightarrow> repl_item list \<Rightarrow> nat option \<Rightarrow> string \<Rightarrow> string" where
  "sub_loop p t lim s =
     (if lim = Some 0 then s
      else
        (case rmatch p s of
           None \<Rightarrow> (case s of [] \<Rightarrow> [] | c # cs \<Rightarrow> c # sub_loop p t lim cs)
         | Some (gs, rest) \<Rightarrow>
             (let n = length s - length rest in
              if n = 0 then
                expand t [] @
                  (case s of [] \<Rightarrow> [] | c # cs \<Rightarrow> c # sub_loop p t (map_option (\<lambda>l. l - 1) lim) cs)
              else expand t (take n s) @ sub_loop p t (map_option (\<lambda>l. l - 1) lim) (drop n s))))"
  by pat_completeness auto
termination
  by (relation "measure (\<lambda>(p, t, lim, s). length s)") auto

declare sub_loop.simps [simp del]

section \<open>Constants\<close>

definition IGNORECASE :: nat where
  \<comment> \<open>the value of the flag \<^verbatim>\<open>re.IGNORECASE\<close>\<close>
  "IGNORECASE = 2"

definition FTS_OPERATORS :: "string set" where
  "FTS_OPERATORS = {''AND'', ''OR'', ''NOT''}"

definition KEY_BOOK_CHAPTER_VERSE_REGEXP :: "piece list" where
  \<comment> \<open>\<^verbatim>\<open>([^:]+) +(\d+):(\d+)\<close>\<close>
  "KEY_BOOK_CHAPTER_VERSE_REGEXP =
     [Group_plus (\<lambda>c. c \<noteq> CHR '':''), Plus (\<lambda>c. c = CHR '' ''), Group_plus isdigit,
      Lit (CHR '':''), Group_plus isdigit]"

definition KEY_BOOK_CHAPTER_REGEXP :: "piece list" where
  \<comment> \<open>\<^verbatim>\<open>([^:]+) +(\d+)\<close>\<close>
  "KEY_BOOK_CHAPTER_REGEXP =
     [Group_plus (\<lambda>c. c \<noteq> CHR '':''), Plus (\<lambda>c. c = CHR '' ''), Group_plus isdigit]"

definition KEY_BOOK_REGEXP :: "piece list" where
  \<comment> \<open>\<^verbatim>\<open>([^:]+)\<close>\<close>
  "KEY_BOOK_REGEXP = [Group_plus (\<lambda>c. c \<noteq> CHR '':'')]"

section \<open>Exceptions\<close>

text \<open>
  The exceptions that leave a function of \<^verbatim>\<open>query.py\<close>. \<open>ValueError\<close> is raised by
  \<^verbatim>\<open>int\<close>, \<open>TypeError\<close> is the failed unpacking of \<^verbatim>\<open>None\<close>, \<open>UnboundLocalError\<close> (a
  \<^verbatim>\<open>NameError\<close>) the read of a local variable that no branch assigned, \<open>Re_error\<close> is
  \<^verbatim>\<open>re.error\<close>, \<open>OverflowError\<close> is raised when an integer that does not fit 64 bits
  is bound to a parameter of a query, and \<open>Source_error\<close> is whatever opening or
  reading the source raises.
\<close>

datatype exn =
    UsageError string | UnboundLocalError | TypeError | ValueError | OverflowError | Re_error
  | Source_error string

definition MAX_STR_DIGITS :: nat where
  \<comment> \<open>the largest number of digits that \<^verbatim>\<open>int\<close> converts (\<^verbatim>\<open>sys.int_info.default_max_str_digits\<close>)\<close>
  "MAX_STR_DIGITS = 4300"

definition py_int :: "string \<Rightarrow> exn + int" where
  \<comment> \<open>\<^verbatim>\<open>int(s)\<close> for a string without sign, blanks or underscores, as the digit groups of
     the key regexps are\<close>
  "py_int s =
     (if s \<noteq> [] \<and> list_all isdigit s \<and> length s \<le> MAX_STR_DIGITS then Inr (digits_int s)
      else Inl ValueError)"

section \<open>The key parser\<close>

text \<open>
  \<^verbatim>\<open>split_key\<close> tries the three regexps in turn. When none matches, the Python
  function falls off its end and returns \<^verbatim>\<open>None\<close>: here the result \<open>Inr None\<close>. The
  conversions of a tuple are made from left to right, and an exception of \<^verbatim>\<open>int\<close>
  leaves the function.
\<close>

definition split_key :: "string \<Rightarrow> exn + (string \<times> int option \<times> int option) option" where
  "split_key key =
     (case rmatch KEY_BOOK_CHAPTER_VERSE_REGEXP key of
        Some (m, _) \<Rightarrow>
          (case py_int (m ! 1) of
             Inl x \<Rightarrow> Inl x
           | Inr c \<Rightarrow>
               (case py_int (m ! 2) of
                  Inl x \<Rightarrow> Inl x
                | Inr v \<Rightarrow> Inr (Some (m ! 0, Some c, Some v))))
      | None \<Rightarrow>
          (case rmatch KEY_BOOK_CHAPTER_REGEXP key of
             Some (m, _) \<Rightarrow>
               (case py_int (m ! 1) of
                  Inl x \<Rightarrow> Inl x
                | Inr c \<Rightarrow> Inr (Some (m ! 0, Some c, None)))
           | None \<Rightarrow>
               (case rmatch KEY_BOOK_REGEXP key of
                  Some (m, _) \<Rightarrow> Inr (Some (m ! 0, None, None))
                | None \<Rightarrow> Inr None)))"

fun space_digit :: "string \<Rightarrow> bool" where
  \<comment> \<open>some space of the string is directly followed by a digit\<close>
  "space_digit (a # b # cs) = ((a = CHR '' '' \<and> isdigit b) \<or> space_digit (b # cs))"
| "space_digit _ = False"

section \<open>Verse records and the environment\<close>

text \<open>
  A verse record has the four fields of the data model; the rows of the JSON array
  and of the \<^verbatim>\<open>verses\<close> relation are both read as such records. The integers of a
  record are those that a source can hold: \<^verbatim>\<open>json.load\<close> refuses a number of more than
  4300 digits, and the store keeps integers of 64 bits.
\<close>

record verse_record =
  row_book :: string
  row_chapter :: int
  row_verse :: int
  row_text :: string

text \<open>
  What the program reads from outside: the content of the JSON file and of the
  database under a file name, the answer of the store's full-text \<^verbatim>\<open>MATCH\<close>
  operator, the order in which a \<^verbatim>\<open>set\<close> built from a list of strings is iterated
  (\<open>hash_order\<close>), the terminal's escape sequences, and \<^verbatim>\<open>re.sub\<close> on the patterns
  that contain a special character of the regular expression syntax
  (\<open>re_sub_meta\<close>), which this development does not interpret.
\<close>

record env =
  json_load :: "string \<Rightarrow> exn + verse_record list"
  sqlite_verses :: "string \<Rightarrow> exn + verse_record list"
  fts_match :: "string \<Rightarrow> string \<Rightarrow> exn + verse_record list"
  re_sub_meta :: "string \<Rightarrow> repl_item list \<Rightarrow> string \<Rightarrow> nat \<Rightarrow> exn + string"
  hash_order :: "string list \<Rightarrow> string list"
  term_red :: string
  term_normal :: string

definition hash_order_ok :: "(string list \<Rightarrow> string list) \<Rightarrow> bool" where
  \<comment> \<open>a set holds each element of the list once, in some order\<close>
  "hash_order_ok ord \<longleftrightarrow> (\<forall>xs. distinct (ord xs) \<and> set (ord xs) = set xs)"

section \<open>Lookup\<close>

definition truthy :: "int option \<Rightarrow> bool" where
  \<comment> \<open>\<^verbatim>\<open>if x:\<close> for an integer or \<^verbatim>\<open>None\<close>\<close>
  "truthy x = (case x of None \<Rightarrow> False | Some n \<Rightarrow> n \<noteq> 0)"

definition lookup_json :: "env \<Rightarrow> string \<Rightarrow> string \<Rightarrow> exn + verse_record list" where
  "lookup_json e filename key =
     (case split_key key of
        Inl x \<Rightarrow> Inl x
      | Inr None \<Rightarrow> Inl TypeError
      | Inr (Some (book, chapter, verse)) \<Rightarrow>
          (case json_load e filename of
             Inl x \<Rightarrow> Inl x
           | Inr verses \<Rightarrow>
               Inr (if truthy verse then
                      [v \<leftarrow> verses. row_book v = book \<and> Some (row_chapter v) = chapter
                                      \<and> Some (row_verse v) = verse]
                    else if truthy chapter then
                      [v \<leftarrow> verses. row_book v = book \<and> Some (row_chapter v) = chapter]
                    else [v \<leftarrow> verses. row_book v = book])))"

text \<open>
  The three \<^verbatim>\<open>SELECT\<close> statements are equality filters on the rows of \<^verbatim>\<open>verses\<close>.
  A statement is prepared on the database first, which is where a source that
  cannot be read fails; then its parameters are bound, and an integer outside the
  range of 64 bits is refused there. A cursor on which nothing was executed
  fetches no row.
\<close>

definition int64 :: "int option \<Rightarrow> bool" where
  \<comment> \<open>the value can be bound: \<^verbatim>\<open>None\<close>, or an integer of 64 bits\<close>
  "int64 x = (case x of None \<Rightarrow> True | Some n \<Rightarrow> - (2 ^ 63) \<le> n \<and> n < 2 ^ 63)"

definition lookup_sqlite :: "env \<Rightarrow> string \<Rightarrow> string \<Rightarrow> exn + verse_record list" where
  "lookup_sqlite e filename key =
     (case split_key key of
        Inl x \<Rightarrow> Inl x
      | Inr None \<Rightarrow> Inl TypeError
      | Inr (Some (book, chapter, verse)) \<Rightarrow>
          (case sqlite_verses e filename of
             Inl x \<Rightarrow> Inl x
           | Inr verses \<Rightarrow>
               if truthy verse then
                 (if int64 chapter \<and> int64 verse then
                    Inr [v \<leftarrow> verses. row_book v = book \<and> Some (row_chapter v) = chapter
                                        \<and> Some (row_verse v) = verse]
                  else Inl OverflowError)
               else if truthy chapter then
                 (if int64 chapter then
                    Inr [v \<leftarrow> verses. row_book v = book \<and> Some (row_chapter v) = chapter]
                  else Inl OverflowError)
               else if book \<noteq> [] then Inr [v \<leftarrow> verses. row_book v = book]
               else Inr []))"

section \<open>Search\<close>

fun found_loop :: "string list \<Rightarrow> string \<Rightarrow> bool" where
  \<comment> \<open>the inner loop: \<open>found\<close> after the keys, with its \<^verbatim>\<open>break\<close>\<close>
  "found_loop [] text = True"
| "found_loop (key # keys) text = (if \<not> contains text key then False else found_loop keys text)"

fun search_loop :: "string list \<Rightarrow> verse_record list \<Rightarrow> verse_record list \<Rightarrow> verse_record list" where
  \<comment> \<open>the outer loop; the last argument is \<open>result\<close>\<close>
  "search_loop query [] result = result"
| "search_loop query (v # verses) result =
     search_loop query verses (if found_loop query (row_text v) then result @ [v] else result)"

definition search_json :: "env \<Rightarrow> string \<Rightarrow> string \<Rightarrow> exn + verse_record list" where
  "search_json e filename query =
     (let query = py_split query in
      case json_load e filename of
        Inl x \<Rightarrow> Inl x
      | Inr verses \<Rightarrow> Inr (search_loop query verses []))"

definition search_sqlite :: "env \<Rightarrow> string \<Rightarrow> string \<Rightarrow> exn + verse_record list" where
  "search_sqlite e filename key = fts_match e filename key"

section \<open>Keywords and rendering\<close>

text \<open>
  A Python \<^verbatim>\<open>set\<close> of strings is modelled by the list of its elements in iteration
  order: building one from a list, and the set difference, which builds a new
  set, pass through \<open>hash_order\<close>.
\<close>

definition filter_keywords :: "(string list \<Rightarrow> string list) \<Rightarrow> string list \<Rightarrow> string list" where
  "filter_keywords ord keywords =
     (let keywords = ord keywords;
          keywords = ord [word \<leftarrow> keywords. word \<notin> FTS_OPERATORS]
      in [word \<leftarrow> keywords. \<not> startswith word ''-''])"

definition regex_special :: "char \<Rightarrow> bool" where
  \<comment> \<open>the characters with a meaning in a regular expression, the last is the backslash\<close>
  "regex_special c \<longleftrightarrow> c \<in> set ''.^$*+?{}[]|()'' \<or> c = CHR 0x5C"

text \<open>
  \<^verbatim>\<open>re.sub(pattern, repl, string, count)\<close>. A pattern that starts with a repetition
  operator does not compile (\<^verbatim>\<open>nothing to repeat\<close>); a pattern with no special
  character matches itself, letter for letter; \<open>cnt\<close> (the parameter \<^verbatim>\<open>count\<close>) is
  the largest number of replacements, and 0 stands for no limit.
\<close>

definition re_sub :: "env \<Rightarrow> string \<Rightarrow> repl_item list \<Rightarrow> string \<Rightarrow> nat \<Rightarrow> exn + string" where
  "re_sub e pattern repl s cnt =
     (if pattern \<noteq> [] \<and> hd pattern \<in> set ''*+?'' then Inl Re_error
      else if list_ex regex_special pattern then re_sub_meta e pattern repl s cnt
      else Inr (sub_loop (map Lit pattern) repl (if cnt = 0 then None else Some cnt) s))"

definition re_accepts :: "env \<Rightarrow> string \<Rightarrow> bool" where
  \<comment> \<open>\<^verbatim>\<open>re.sub\<close> takes the string as a pattern: it returns, whatever the text\<close>
  "re_accepts e pattern \<longleftrightarrow> (\<forall>repl s cnt. \<exists>s'. re_sub e pattern repl s cnt = Inr s')"

definition COLORIZE_REPLACEMENT :: "env \<Rightarrow> repl_item list" where
  \<comment> \<open>\<^verbatim>\<open>TERM.red + r"\g<0>" + TERM.normal\<close>; the two escape sequences hold no backslash
     and stand for themselves in the template\<close>
  "COLORIZE_REPLACEMENT e = [Rtext (term_red e), Rgroup0, Rtext (term_normal e)]"

text \<open>
  \<^verbatim>\<open>colorize_matches\<close> passes \<^verbatim>\<open>re.IGNORECASE\<close> as the fourth positional argument of
  \<^verbatim>\<open>re.sub\<close>, which is \<^verbatim>\<open>count\<close>.
\<close>

fun colorize_matches :: "env \<Rightarrow> string \<Rightarrow> string list \<Rightarrow> exn + string" where
  "colorize_matches e s [] = Inr s"
| "colorize_matches e s (keyword # keywords) =
     (case re_sub e keyword (COLORIZE_REPLACEMENT e) s IGNORECASE of
        Inl x \<Rightarrow> Inl x
      | Inr s' \<Rightarrow> colorize_matches e s' keywords)"

datatype jvalue = JStr string | JInt int

datatype event =
    Secho_bold string  \<comment> \<open>\<^verbatim>\<open>click.secho(..., bold=True, nl=False)\<close>\<close>
  | Echo string  \<comment> \<open>\<^verbatim>\<open>click.echo(...)\<close>\<close>
  | Print_json "(string \<times> jvalue) list list"  \<comment> \<open>\<^verbatim>\<open>print(json.dumps(..., indent=2))\<close>\<close>

definition row_prefix :: "verse_record \<Rightarrow> string" where
  \<comment> \<open>\<^verbatim>\<open>"%s %s:%s: " % (row['book'], row['chapter'], row['verse'])\<close>\<close>
  "row_prefix row =
     row_book row @ '' '' @ str_int (row_chapter row) @ '':'' @ str_int (row_verse row) @ '': ''"

fun render_rows :: "env \<Rightarrow> verse_record list \<Rightarrow> string list option \<Rightarrow> exn + event list" where
  \<comment> \<open>the loop of \<^verbatim>\<open>render_plain\<close>; \<^verbatim>\<open>if keywords:\<close> holds of a non-empty list. The
     result is what was written, or the exception that ended the loop\<close>
  "render_rows e [] keywords = Inr []"
| "render_rows e (row # rows) keywords =
     (case (case keywords of
              Some (k # ks) \<Rightarrow> colorize_matches e (row_text row) (k # ks)
            | _ \<Rightarrow> Inr (row_text row)) of
        Inl x \<Rightarrow> Inl x
      | Inr text \<Rightarrow>
          (case render_rows e rows keywords of
             Inl x \<Rightarrow> Inl x
           | Inr out \<Rightarrow> Inr (Secho_bold (row_prefix row) # Echo text # out)))"

definition render_plain :: "env \<Rightarrow> verse_record list \<Rightarrow> string list option \<Rightarrow> exn + event list" where
  "render_plain e rows keywords =
     (let keywords =
        (case keywords of
           Some (k # ks) \<Rightarrow> Some (filter_keywords (hash_order e) (k # ks))
         | _ \<Rightarrow> keywords)
      in render_rows e rows keywords)"

definition row_to_dict :: "verse_record \<Rightarrow> (string \<times> jvalue) list" where
  "row_to_dict row =
     [(''book'', JStr (row_book row)), (''chapter'', JInt (row_chapter row)),
      (''verse'', JInt (row_verse row)), (''text'', JStr (row_text row))]"

definition render_json :: "verse_record list \<Rightarrow> event list" where
  "render_json rows = [Print_json (map row_to_dict rows)]"

section \<open>The commands\<close>

text \<open>
  The bodies of the two commands, entered once \<^verbatim>\<open>click\<close> has checked that the path
  \<open>filename\<close> exists. A file name for which no branch assigns \<^verbatim>\<open>result\<close> leaves it
  unbound for the test that follows.
\<close>

definition lookup :: "env \<Rightarrow> string \<Rightarrow> string \<Rightarrow> string \<Rightarrow> exn + event list" where
  "lookup e filename key output =
     (case (if endswith filename ''json'' then lookup_json e filename key
            else if endswith filename ''sqlite'' then lookup_sqlite e filename key
            else Inl UnboundLocalError) of
        Inl x \<Rightarrow> Inl x
      | Inr result \<Rightarrow>
          if result \<noteq> [] then
            (if output = ''plain'' then render_plain e result None
             else if output = ''json'' then Inr (render_json result)
             else Inr [])
          else Inl (UsageError (key @ '' not found'')))"

definition search :: "env \<Rightarrow> string \<Rightarrow> string list \<Rightarrow> string \<Rightarrow> exn + event list" where
  "search e filename keywords output =
     (let query = join '' '' keywords;
          keywords = filter_keywords (hash_order e) (py_split query)
      in case (if endswith filename ''json'' then search_json e filename query
               else if endswith filename ''sqlite'' then search_sqlite e filename query
               else Inl UnboundLocalError) of
           Inl x \<Rightarrow> Inl x
         | Inr result \<Rightarrow>
             if result \<noteq> [] then
               (if output = ''plain'' then render_plain e result (Some keywords)
                else if output = ''json'' then Inr (render_json result)
                else Inr [])
             else Inl (UsageError (''No matches found for: '' @ query)))"

text \<open>
  What the backend returns to a command: the value of \<^verbatim>\<open>result\<close> when the part of the
  body that runs the query is over.
\<close>

definition lookup_result :: "env \<Rightarrow> string \<Rightarrow> string \<Rightarrow> exn + verse_record list" where
  "lookup_result e filename key =
     (if endswith filename ''json'' then lookup_json e filename key
      else if endswith filename ''sqlite'' then lookup_sqlite e filename key
      else Inl UnboundLocalError)"

definition search_result :: "env \<Rightarrow> string \<Rightarrow> string \<Rightarrow> exn + verse_record list" where
  "search_result e filename query =
     (if endswith filename ''json'' then search_json e filename query
      else if endswith filename ''sqlite'' then search_sqlite e filename query
      else Inl UnboundLocalError)"

definition exit_status :: "exn + event list \<Rightarrow> nat" where
  \<comment> \<open>0 on return, 2 for a usage error of \<^verbatim>\<open>click\<close>, 1 for an uncaught exception\<close>
  "exit_status r = (case r of Inr _ \<Rightarrow> 0 | Inl (UsageError _) \<Rightarrow> 2 | Inl _ \<Rightarrow> 1)"

section \<open>Example data\<close>

definition example_verses :: "verse_record list" where
  "example_verses =
     [\<lparr>row_book = ''Genesis'', row_chapter = 1, row_verse = 1,
        row_text = ''In the beginning God created the heaven and the earth.''\<rparr>,
      \<lparr>row_book = ''Genesis'', row_chapter = 1, row_verse = 3,
        row_text = ''And God said, Let there be light: and there was light.''\<rparr>,
      \<lparr>row_book = ''Genesis'', row_chapter = 3, row_verse = 9,
        row_text = ''And the LORD God called unto Adam, and said unto him, Where art thou?''\<rparr>]"

definition insertion_order :: "string list \<Rightarrow> string list" where
  \<comment> \<open>the first occurrence of each element, in the order of the list\<close>
  "insertion_order xs = rev (remdups (rev xs))"

definition length_order :: "string list \<Rightarrow> string list" where
  \<comment> \<open>an order given by a number computed from each element, here its length\<close>
  "length_order xs = sort_key length (remdups xs)"

definition rot_order :: "string list \<Rightarrow> string list" where
  \<comment> \<open>the insertion order, begun at the second element\<close>
  "rot_order xs = rotate1 (insertion_order xs)"

text \<open>
  The example environment fixes nothing about \<^verbatim>\<open>re.sub\<close> on the patterns with special
  characters.
\<close>

definition example_env :: env where
  "example_env =
     \<lparr>json_load = (\<lambda>filename. Inr example_verses),
      sqlite_verses = (\<lambda>filename. Inr example_verses),
      fts_match = (\<lambda>filename query. Inr []),
      re_sub_meta = undefined,
      hash_order = insertion_order,
      term_red = CHR 0x1B # ''[31m'',
      term_normal = CHR 0x1B # ''[m''\<rparr>"

definition store_env :: env where
  \<comment> \<open>the example with a database that holds another verse than the JSON file\<close>
  "store_env =
     example_env
       \<lparr>sqlite_verses :=
          (\<lambda>filename. Inr [\<lparr>row_book = ''John'', row_chapter = 8, row_verse = 12,
                              row_text = ''I am the light of the world''\<rparr>]),
        fts_match :=
          (\<lambda>filename query. Inr [\<lparr>row_book = ''John'', row_chapter = 8, row_verse = 12,
                                    row_text = ''I am the light of the world''\<rparr>])\<rparr>"

section \<open>Properties of the matcher\<close>

lemma greedy_plus_SomeD:
  "greedy_plus cls k s = Some (g, r) \<Longrightarrow>
     g \<noteq> [] \<and> list_all cls g \<and> (\<exists>rest. s = g @ rest \<and> k rest = Some r)"
proof (induction s arbitrary: g r)
  case Nil
  then show ?case by simp
next
  case (Cons c cs)
  show ?case
  proof (cases "greedy_plus cls k cs")
    case None
    with Cons.prems show ?thesis
      by (auto split: if_splits option.splits)
  next
    case (Some a)
    obtain g' r' where a: "a = (g', r')" by (cases a)
    from Cons.IH [OF Some [unfolded a]] Cons.prems Some a show ?thesis
      by (auto split: if_splits)
  qed
qed

lemma greedy_plus_None:
  "(\<And>i. 0 < i \<Longrightarrow> i \<le> length s \<Longrightarrow> k (drop i s) = None) \<Longrightarrow> greedy_plus cls k s = None"
proof (induction s)
  case Nil
  then show ?case by simp
next
  case (Cons c cs)
  have "greedy_plus cls k cs = None"
  proof (rule Cons.IH)
    fix i assume "0 < i" "i \<le> length cs"
    then show "k (drop i cs) = None"
      using Cons.prems [of "Suc i"] by simp
  qed
  moreover have "k cs = None"
    using Cons.prems [of 1] by simp
  ultimately show ?case by simp
qed

lemma greedy_plus_stop:
  "s = [] \<or> \<not> cls (hd s) \<Longrightarrow> greedy_plus cls k s = None"
  by (cases s) auto

lemma greedy_plus_take:
  "g \<noteq> [] \<Longrightarrow> list_all cls g \<Longrightarrow> greedy_plus cls k rest = None \<Longrightarrow> k rest = Some r \<Longrightarrow>
     greedy_plus cls k (g @ rest) = Some (g, r)"
proof (induction g)
  case Nil
  then show ?case by simp
next
  case (Cons c g)
  show ?case
  proof (cases "g = []")
    case True
    with Cons.prems show ?thesis by simp
  next
    case False
    with Cons have "greedy_plus cls k (g @ rest) = Some (g, r)" by simp
    with Cons.prems show ?thesis by simp
  qed
qed

text \<open>No longer repetition than the one taken lets the rest of the pattern match.\<close>

lemma greedy_plus_longest:
  "greedy_plus cls k s = Some (g, r) \<Longrightarrow> g' \<noteq> [] \<Longrightarrow> list_all cls g' \<Longrightarrow> s = g' @ rest
     \<Longrightarrow> length g < length g' \<Longrightarrow> k rest = None"
proof (induction s arbitrary: g r g')
  case Nil
  then show ?case by simp
next
  case (Cons c cs)
  from Cons.prems(2,4) obtain g'' where g': "g' = c # g''" and cs: "cs = g'' @ rest"
    by (cases g') auto
  show ?case
  proof (cases "greedy_plus cls k cs")
    case None
    with Cons.prems(1) have g: "g = [c]"
      by (auto split: if_splits option.splits)
    with Cons.prems(5) g' have ne: "g'' \<noteq> []" by auto
    show ?thesis
    proof (cases "k rest")
      case (Some y)
      from Cons.prems(3) g' have "list_all cls g''" by simp
      have "greedy_plus cls k (g'' @ rest) \<noteq> None"
        using ne \<open>list_all cls g''\<close>
      proof (induction g'')
        case Nil
        then show ?case by simp
      next
        case (Cons a as)
        show ?case
        proof (cases "as = []")
          case True
          with Cons.prems Some show ?thesis by (auto split: option.splits)
        next
          case False
          with Cons have "greedy_plus cls k (as @ rest) \<noteq> None" by simp
          with Cons.prems show ?thesis by (auto split: option.splits)
        qed
      qed
      with None cs show ?thesis by simp
    qed simp
  next
    case (Some a)
    obtain g0 r0 where a: "a = (g0, r0)" by (cases a)
    with Some Cons.prems(1) have g: "g = c # g0" and r: "r = r0"
      by (auto split: if_splits)
    from Cons.prems(5) g g' have len: "length g0 < length g''" by simp
    then have ne: "g'' \<noteq> []" by auto
    from Cons.prems(3) g' have "list_all cls g''" by simp
    from Cons.IH [OF Some [unfolded a] ne this cs len] show ?thesis .
  qed
qed



lemma rmatch_Lit_mem:
  "rmatch ps s = Some (gs, rest) \<Longrightarrow> Lit ch \<in> set ps \<Longrightarrow> ch \<in> set s"
proof (induction ps arbitrary: s gs rest)
  case Nil
  then show ?case by simp
next
  case (Cons p ps)
  show ?case
  proof (cases p)
    case (Lit c)
    with Cons.prems obtain xs where s: "s = c # xs" and m: "rmatch ps xs = Some (gs, rest)"
      by (cases s) (auto split: if_splits)
    from Cons.prems(2) Lit have "ch = c \<or> Lit ch \<in> set ps" by auto
    then show ?thesis using Cons.IH [OF m] s by auto
  next
    case (Plus cls)
    with Cons.prems obtain g r where gp: "greedy_plus cls (rmatch ps) s = Some (g, r)" and r: "r = (gs, rest)"
      by auto
    from greedy_plus_SomeD [OF gp] obtain t where t: "s = g @ t" "rmatch ps t = Some r" by blast
    from Cons.prems(2) Plus have "Lit ch \<in> set ps" by auto
    from Cons.IH [OF t(2) [unfolded r] this] t(1) show ?thesis by simp
  next
    case (Group_plus cls)
    with Cons.prems obtain g gs' where gp: "greedy_plus cls (rmatch ps) s = Some (g, (gs', rest))"
      by (auto split: prod.splits)
    from greedy_plus_SomeD [OF gp] obtain t where t: "s = g @ t" "rmatch ps t = Some (gs', rest)" by blast
    from Cons.prems(2) Group_plus have "Lit ch \<in> set ps" by auto
    from Cons.IH [OF t(2) this] t(1) show ?thesis by simp
  qed
qed

lemma isdigit_not_space: "isdigit c \<Longrightarrow> c \<noteq> CHR '' ''"
  by (auto simp: isdigit_def)

lemma isdigit_not_colon: "isdigit c \<Longrightarrow> c \<noteq> CHR '':''"
  by (auto simp: isdigit_def)

lemma rmatch_space_stop:
  "s = [] \<or> hd s \<noteq> CHR '' '' \<Longrightarrow> rmatch (Plus (\<lambda>c. c = CHR '' '') # ps) s = None"
  by (subst rmatch.simps) (simp del: rmatch.simps add: greedy_plus_stop)

lemma rmatch_digits_end:
  assumes "v \<noteq> []" "list_all isdigit v"
  shows "rmatch [Group_plus isdigit] v = Some ([v], [])"
proof -
  have "greedy_plus isdigit (rmatch []) (v @ []) = Some (v, ([], []))"
    by (rule greedy_plus_take [OF assms]) simp_all
  then show ?thesis
    by (subst rmatch.simps) (simp del: rmatch.simps)
qed

lemma rmatch_chapter_verse:
  assumes "c \<noteq> []" "list_all isdigit c" "v \<noteq> []" "list_all isdigit v"
  shows "rmatch [Group_plus isdigit, Lit (CHR '':''), Group_plus isdigit] (c @ CHR '':'' # v)
           = Some ([c, v], [])"
proof -
  let ?k = "rmatch [Lit (CHR '':''), Group_plus isdigit]"
  have stop: "greedy_plus isdigit ?k (CHR '':'' # v) = None"
    by (rule greedy_plus_stop) (simp add: isdigit_def)
  have k: "?k (CHR '':'' # v) = Some ([v], [])"
    by (subst rmatch.simps) (simp del: rmatch.simps add: rmatch_digits_end [OF assms(3,4)])
  from greedy_plus_take [OF assms(1,2) stop k] show ?thesis
    by (subst rmatch.simps) (simp del: rmatch.simps)
qed

lemma rmatch_space_digits:
  assumes "c \<noteq> []" "list_all isdigit c" "rmatch ps (c @ t) = Some r"
  shows "rmatch (Plus (\<lambda>c. c = CHR '' '') # ps) (CHR '' '' # c @ t) = Some r"
proof -
  from assms(1,2) have "hd (c @ t) \<noteq> CHR '' ''"
    by (cases c) (auto dest: isdigit_not_space)
  then have stop: "greedy_plus (\<lambda>c. c = CHR '' '') (rmatch ps) (c @ t) = None"
    by (intro greedy_plus_stop) simp
  have "greedy_plus (\<lambda>c. c = CHR '' '') (rmatch ps) ([CHR '' ''] @ c @ t) = Some ([CHR '' ''], r)"
    by (rule greedy_plus_take [OF _ _ stop assms(3)]) simp_all
  then show ?thesis
    by (subst rmatch.simps) (simp del: rmatch.simps)
qed

lemma hd_drop_mem: "i < length xs \<Longrightarrow> hd (drop i xs) \<in> set xs"
  by (metis Cons_nth_drop_Suc list.sel(1) nth_mem)

lemma no_space_after:
  assumes "CHR '' '' \<notin> set t" "0 < i"
  shows "rmatch (Plus (\<lambda>c. c = CHR '' '') # ps) (drop i (CHR '' '' # t)) = None"
proof (rule rmatch_space_stop)
  from assms(2) obtain j where i: "i = Suc j" by (cases i) auto
  show "drop i (CHR '' '' # t) = [] \<or> hd (drop i (CHR '' '' # t)) \<noteq> CHR '' ''"
  proof (cases "j < length t")
    case True
    from hd_drop_mem [OF this] assms(1) i show ?thesis by auto
  next
    case False
    with i show ?thesis by simp
  qed
qed

lemma rmatch_group_book:
  assumes "book \<noteq> []" "CHR '':'' \<notin> set book" "CHR '' '' \<notin> set t"
    and "rmatch (Plus (\<lambda>c. c = CHR '' '') # ps) (CHR '' '' # t) = Some (gs, rest)"
  shows "rmatch (Group_plus (\<lambda>c. c \<noteq> CHR '':'') # Plus (\<lambda>c. c = CHR '' '') # ps) (book @ CHR '' '' # t)
           = Some (book # gs, rest)"
proof -
  let ?k = "rmatch (Plus (\<lambda>c. c = CHR '' '') # ps)"
  have stop: "greedy_plus (\<lambda>c. c \<noteq> CHR '':'') ?k (CHR '' '' # t) = None"
    by (rule greedy_plus_None) (rule no_space_after [OF assms(3)])
  from assms(2) have "list_all (\<lambda>c. c \<noteq> CHR '':'') book"
    by (auto simp: list_all_iff)
  from greedy_plus_take [OF assms(1) this stop assms(4)] show ?thesis
    by (subst rmatch.simps) (simp del: rmatch.simps)
qed

lemma digits_no_space: "list_all isdigit c \<Longrightarrow> CHR '' '' \<notin> set c"
  by (auto simp: list_all_iff dest: isdigit_not_space)

lemma digits_no_colon: "list_all isdigit c \<Longrightarrow> CHR '':'' \<notin> set c"
  by (auto simp: list_all_iff dest: isdigit_not_colon)

lemma match_book_chapter_verse:
  assumes "book \<noteq> []" "CHR '':'' \<notin> set book"
    and "c \<noteq> []" "list_all isdigit c" "v \<noteq> []" "list_all isdigit v"
  shows "rmatch KEY_BOOK_CHAPTER_VERSE_REGEXP (book @ CHR '' '' # c @ CHR '':'' # v)
           = Some ([book, c, v], [])"
proof -
  have "CHR '' '' \<notin> set (c @ CHR '':'' # v)"
    using digits_no_space [OF assms(4)] digits_no_space [OF assms(6)] by simp
  moreover have "rmatch [Plus (\<lambda>c. c = CHR '' ''), Group_plus isdigit, Lit (CHR '':''), Group_plus isdigit]
       (CHR '' '' # c @ CHR '':'' # v) = Some ([c, v], [])"
    by (rule rmatch_space_digits [OF assms(3,4)]) (rule rmatch_chapter_verse [OF assms(3-6)])
  ultimately show ?thesis
    unfolding KEY_BOOK_CHAPTER_VERSE_REGEXP_def
    by (rule rmatch_group_book [OF assms(1,2)])
qed

lemma match_book_chapter:
  assumes "book \<noteq> []" "CHR '':'' \<notin> set book" "c \<noteq> []" "list_all isdigit c"
  shows "rmatch KEY_BOOK_CHAPTER_REGEXP (book @ CHR '' '' # c) = Some ([book, c], [])"
proof -
  have "rmatch [Plus (\<lambda>c. c = CHR '' ''), Group_plus isdigit] (CHR '' '' # c @ []) = Some ([c], [])"
    by (rule rmatch_space_digits [OF assms(3,4)]) (simp del: rmatch.simps add: rmatch_digits_end [OF assms(3,4)])
  then have "rmatch [Plus (\<lambda>c. c = CHR '' ''), Group_plus isdigit] (CHR '' '' # c) = Some ([c], [])"
    by simp
  with digits_no_space [OF assms(4)] show ?thesis
    unfolding KEY_BOOK_CHAPTER_REGEXP_def
    by (rule rmatch_group_book [OF assms(1,2)])
qed

lemma no_colon_no_verse:
  "CHR '':'' \<notin> set key \<Longrightarrow> rmatch KEY_BOOK_CHAPTER_VERSE_REGEXP key = None"
proof (rule ccontr)
  assume nc: "CHR '':'' \<notin> set key" and "rmatch KEY_BOOK_CHAPTER_VERSE_REGEXP key \<noteq> None"
  then obtain gs rest where "rmatch KEY_BOOK_CHAPTER_VERSE_REGEXP key = Some (gs, rest)"
    by auto
  from rmatch_Lit_mem [OF this, of "CHR '':''"] nc show False
    by (simp add: KEY_BOOK_CHAPTER_VERSE_REGEXP_def)
qed

lemma match_book:
  assumes "key \<noteq> []" "CHR '':'' \<notin> set key"
  shows "rmatch KEY_BOOK_REGEXP key = Some ([key], [])"
proof -
  from assms(2) have "list_all (\<lambda>c. c \<noteq> CHR '':'') key"
    by (auto simp: list_all_iff)
  then have "greedy_plus (\<lambda>c. c \<noteq> CHR '':'') (rmatch []) (key @ []) = Some (key, ([], []))"
    by (intro greedy_plus_take [OF assms(1)]) simp_all
  then show ?thesis
    unfolding KEY_BOOK_REGEXP_def by (subst rmatch.simps) (simp del: rmatch.simps)
qed

lemma space_digit_Cons: "space_digit t \<Longrightarrow> space_digit (c # t)"
  by (cases t) auto

lemma space_digit_append: "space_digit t \<Longrightarrow> space_digit (xs @ t)"
  by (induction xs) (auto intro: space_digit_Cons)

lemma space_digit_drop: "space_digit (drop i s) \<Longrightarrow> space_digit s"
  using space_digit_append [of "drop i s" "take i s"] by simp

lemma space_digit_run:
  "g \<noteq> [] \<Longrightarrow> list_all (\<lambda>c. c = CHR '' '') g \<Longrightarrow> isdigit d \<Longrightarrow> space_digit (g @ d # rest)"
proof (induction g)
  case Nil
  then show ?case by simp
next
  case (Cons a g)
  then show ?case by (cases g) auto
qed

lemma rmatch_space_digitD:
  assumes "rmatch (Plus (\<lambda>c. c = CHR '' '') # Group_plus isdigit # ps) t = Some r"
  shows "space_digit t"
proof -
  let ?k = "rmatch (Group_plus isdigit # ps)"
  from assms obtain g r' where gp: "greedy_plus (\<lambda>c. c = CHR '' '') ?k t = Some (g, r')"
    by (subst (asm) rmatch.simps) (auto simp del: rmatch.simps)
  from greedy_plus_SomeD [OF gp] obtain rest where
    g: "g \<noteq> []" "list_all (\<lambda>c. c = CHR '' '') g" and t: "t = g @ rest" and k: "?k rest = Some r'"
    by blast
  from k obtain g' r'' where gp': "greedy_plus isdigit (rmatch ps) rest = Some (g', r'')"
    by (subst (asm) rmatch.simps) (auto simp del: rmatch.simps)
  from greedy_plus_SomeD [OF gp'] obtain rest' where
    g': "g' \<noteq> []" "list_all isdigit g'" and rest: "rest = g' @ rest'"
    by blast
  from g' obtain d ds where d: "g' = d # ds" "isdigit d"
    by (cases g') auto
  from space_digit_run [OF g d(2), of "ds @ rest'"] show ?thesis
    by (simp add: t rest d(1))
qed

lemma no_space_digit_no_chapter:
  assumes "\<not> space_digit key"
  shows "rmatch KEY_BOOK_CHAPTER_REGEXP key = None"
proof -
  let ?k = "rmatch [Plus (\<lambda>c. c = CHR '' ''), Group_plus isdigit]"
  have "greedy_plus (\<lambda>c. c \<noteq> CHR '':'') ?k key = None"
  proof (rule greedy_plus_None)
    fix i
    show "?k (drop i key) = None"
    proof (cases "?k (drop i key)")
      case (Some r)
      from rmatch_space_digitD [OF this] assms show ?thesis
        by (auto dest: space_digit_drop)
    qed simp
  qed
  then show ?thesis
    unfolding KEY_BOOK_CHAPTER_REGEXP_def by (subst rmatch.simps) (simp del: rmatch.simps)
qed

lemma rmatch_group_first:
  assumes "rmatch (Group_plus cls # ps) s = Some (m, rest)"
  shows "m \<noteq> [] \<and> m ! 0 \<noteq> [] \<and> s \<noteq> [] \<and> cls (hd s)"
proof -
  from assms obtain g gs where gp: "greedy_plus cls (rmatch ps) s = Some (g, (gs, rest))"
    and m: "m = g # gs"
    by (subst (asm) rmatch.simps) (auto simp del: rmatch.simps)
  from greedy_plus_SomeD [OF gp] obtain t where "g \<noteq> []" "list_all cls g" "s = g @ t"
    by blast
  with m show ?thesis by (cases g) auto
qed



section \<open>What a match says about the key\<close>







lemma py_int_digits:
  "c \<noteq> [] \<Longrightarrow> list_all isdigit c \<Longrightarrow>
     py_int c = (if length c \<le> MAX_STR_DIGITS then Inr (digits_int c) else Inl ValueError)"
  by (simp add: py_int_def)

lemmas split_key_eval =
  split_key_def KEY_BOOK_CHAPTER_VERSE_REGEXP_def KEY_BOOK_CHAPTER_REGEXP_def KEY_BOOK_REGEXP_def
  isdigit_def py_int_def MAX_STR_DIGITS_def digits_int_def digit_value_def

section \<open>The key parser: which keys have a result\<close>



section \<open>The key parser: the three forms of a key\<close>

text \<open>
  The book group is greedy and takes spaces too: of a run of spaces in front of the
  digits only the last is left out of the book, and the book that comes back ends
  in a space.
\<close>

lemma split_key_run_of_spaces:
  "split_key ''Genesis  1:1'' = Inr (Some (''Genesis '', Some 1, Some 1))"
  by (simp add: split_key_eval)

text \<open>
  More than 4300 digits are refused by \<^verbatim>\<open>int\<close>.
\<close>

lemma split_key_long_chapter:
  assumes "book \<noteq> []" "CHR '':'' \<notin> set book" "list_all isdigit c" "MAX_STR_DIGITS < length c"
  shows "split_key (book @ '' '' @ c) = Inl ValueError"
proof -
  from assms(4) have c: "c \<noteq> []" by auto
  from assms(3) have "CHR '':'' \<notin> set (book @ CHR '' '' # c)"
    using digits_no_colon [of c] assms(2) by simp
  from no_colon_no_verse [OF this] match_book_chapter [OF assms(1,2) c assms(3)] assms(4)
  show ?thesis
    by (simp add: split_key_def py_int_digits [OF c assms(3)])
qed

text \<open>
  Claim C2 says that a key \<^verbatim>\<open>Book C:V\<close> is split into the book before the last run of
  whitespace, and the two numbers; that \<^verbatim>\<open>Book C\<close> gives the book and the chapter;
  and that every other non-empty key is returned whole as the book. A key with a
  colon that has neither of the two forms is not returned whole: the book group
  \<^verbatim>\<open>[^:]+\<close> ends before the first colon.
\<close>

theorem split_key_colon_in_book: "split_key ''Song:1'' = Inr (Some (''Song'', None, None))"
  by (simp add: split_key_eval)

text \<open>
  C2, as amended, for keys of characters below code point 256 (where \<^verbatim>\<open>\d\<close> is one of
  the ten digits 0 to 9). Let \<open>book\<close> be not empty, with no colon and no space at its
  end, and \<open>c\<close> and \<open>v\<close> strings of 1 to 4300 digits. The key \<open>book\<close>, one space, \<open>c\<close>, a
  colon, \<open>v\<close> gives the book and the two numbers; the key \<open>book\<close>, one space, \<open>c\<close>
  gives the book and the chapter; and a non-empty key with no colon and no space
  directly followed by a digit is returned whole, with neither chapter nor verse.
\<close>

theorem split_key_forms:
  "(book \<noteq> [] \<and> CHR '':'' \<notin> set book \<and> last book \<noteq> CHR '' ''
      \<and> c \<noteq> [] \<and> list_all isdigit c \<and> length c \<le> MAX_STR_DIGITS
      \<and> v \<noteq> [] \<and> list_all isdigit v \<and> length v \<le> MAX_STR_DIGITS
      \<longrightarrow> split_key (book @ '' '' @ c @ '':'' @ v)
            = Inr (Some (book, Some (digits_int c), Some (digits_int v))))
   \<and> (book \<noteq> [] \<and> CHR '':'' \<notin> set book \<and> last book \<noteq> CHR '' ''
      \<and> c \<noteq> [] \<and> list_all isdigit c \<and> length c \<le> MAX_STR_DIGITS
      \<longrightarrow> split_key (book @ '' '' @ c) = Inr (Some (book, Some (digits_int c), None)))
   \<and> (key \<noteq> [] \<and> CHR '':'' \<notin> set key \<and> \<not> space_digit key
      \<longrightarrow> split_key key = Inr (Some (key, None, None)))"
proof (intro conjI impI)
  assume a: "book \<noteq> [] \<and> CHR '':'' \<notin> set book \<and> last book \<noteq> CHR '' ''
      \<and> c \<noteq> [] \<and> list_all isdigit c \<and> length c \<le> MAX_STR_DIGITS
      \<and> v \<noteq> [] \<and> list_all isdigit v \<and> length v \<le> MAX_STR_DIGITS"
  then have "rmatch KEY_BOOK_CHAPTER_VERSE_REGEXP (book @ CHR '' '' # c @ CHR '':'' # v)
      = Some ([book, c, v], [])"
    by (intro match_book_chapter_verse) simp_all
  with a show "split_key (book @ '' '' @ c @ '':'' @ v)
      = Inr (Some (book, Some (digits_int c), Some (digits_int v)))"
    by (simp add: split_key_def py_int_digits)
next
  assume a: "book \<noteq> [] \<and> CHR '':'' \<notin> set book \<and> last book \<noteq> CHR '' ''
      \<and> c \<noteq> [] \<and> list_all isdigit c \<and> length c \<le> MAX_STR_DIGITS"
  then have "CHR '':'' \<notin> set (book @ CHR '' '' # c)"
    using digits_no_colon [of c] by simp
  from no_colon_no_verse [OF this] match_book_chapter [of book c] a
  show "split_key (book @ '' '' @ c) = Inr (Some (book, Some (digits_int c), None))"
    by (simp add: split_key_def py_int_digits)
next
  assume a: "key \<noteq> [] \<and> CHR '':'' \<notin> set key \<and> \<not> space_digit key"
  with no_colon_no_verse [of key] no_space_digit_no_chapter [of key] match_book [of key]
  show "split_key key = Inr (Some (key, None, None))"
    by (simp add: split_key_def)
qed

theorem split_key_forms_witness:
  "split_key ''1 John 3:16'' = Inr (Some (''1 John'', Some 3, Some 16))
   \<and> split_key ''1 John 3'' = Inr (Some (''1 John'', Some 3, None))
   \<and> split_key ''Song of Solomon'' = Inr (Some (''Song of Solomon'', None, None))"
proof -
  have d: "list_all isdigit ''3''" "list_all isdigit ''16''"
    by (simp_all add: isdigit_def)
  have l: "length ''3'' \<le> MAX_STR_DIGITS" "length ''16'' \<le> MAX_STR_DIGITS"
    by (simp_all add: MAX_STR_DIGITS_def)
  have p: "digits_int ''3'' = 3" "digits_int ''16'' = 16"
    by (simp_all add: digits_int_def digit_value_def)
  have s: "\<not> space_digit ''Song of Solomon''"
    by (simp add: isdigit_def)
  from split_key_forms [of "''1 John''" "''3''" "''16''" "''Song of Solomon''"] d l p s
  show ?thesis by simp
qed

section \<open>The keyword filter\<close>

lemma startswith_minus: "startswith w ''-'' \<longleftrightarrow> w \<noteq> [] \<and> hd w = CHR ''-''"
  by (cases w) (auto simp: startswith_def)

lemma set_filter_keywords:
  assumes "hash_order_ok ord"
  shows "set (filter_keywords ord keywords)
           = {w \<in> set keywords. w \<notin> FTS_OPERATORS \<and> \<not> startswith w ''-''}"
  using assms by (auto simp: filter_keywords_def hash_order_ok_def Let_def)

lemma distinct_filter_keywords:
  assumes "hash_order_ok ord"
  shows "distinct (filter_keywords ord keywords)"
  using assms by (simp add: filter_keywords_def hash_order_ok_def Let_def)

lemma hash_order_ok_insertion: "hash_order_ok insertion_order"
  by (simp add: hash_order_ok_def insertion_order_def)

lemma hash_order_ok_length: "hash_order_ok length_order"
  by (simp add: hash_order_ok_def length_order_def)


lemma hash_order_ok_rot: "hash_order_ok rot_order"
  by (simp add: hash_order_ok_def rot_order_def insertion_order_def)

text \<open>
  Claim C3 says of every sequence of tokens that \<^verbatim>\<open>filter_keywords\<close> removes the tokens
  \<^verbatim>\<open>AND\<close>, \<^verbatim>\<open>OR\<close>, \<^verbatim>\<open>NOT\<close> and those that start with \<^verbatim>\<open>-\<close> and nothing else, and that
  filtering its own output changes nothing. The code keeps the tokens in a \<^verbatim>\<open>set\<close>:
  a token that comes twice is kept once, and the output filtered again may come in
  another order. With a set iterated from its second element on, \<^verbatim>\<open>a b c\<close> gives
  \<^verbatim>\<open>c a b\<close>, and that gives \<^verbatim>\<open>b c a\<close>.
\<close>

theorem filter_keywords_repeats_and_order:
  "hash_order_ok insertion_order
   \<and> filter_keywords insertion_order [''light'', ''light''] = [''light'']
   \<and> hash_order_ok rot_order
   \<and> filter_keywords rot_order [''a'', ''b'', ''c''] = [''c'', ''a'', ''b'']
   \<and> filter_keywords rot_order [''c'', ''a'', ''b''] = [''b'', ''c'', ''a'']"
  by (simp add: hash_order_ok_insertion hash_order_ok_rot filter_keywords_def rot_order_def
      insertion_order_def FTS_OPERATORS_def startswith_def)

text \<open>
  C3, as amended: the claim holds of the tokens as a set. Whatever the iteration
  order of the sets, a token is in the output if and only if it is in the input, is
  none of \<^verbatim>\<open>AND\<close>, \<^verbatim>\<open>OR\<close>, \<^verbatim>\<open>NOT\<close> (compared with case) and does not start with \<^verbatim>\<open>-\<close>;
  it is there once, however often it comes in the input; and the output filtered
  again holds the same tokens, each once, in an order that may differ.
\<close>

theorem filter_keywords_exact:
  assumes "hash_order_ok ord"
  shows "set (filter_keywords ord keywords)
           = {w \<in> set keywords. w \<notin> {''AND'', ''OR'', ''NOT''} \<and> \<not> (w \<noteq> [] \<and> hd w = CHR ''-'')}
         \<and> distinct (filter_keywords ord keywords)
         \<and> mset (filter_keywords ord (filter_keywords ord keywords))
             = mset (filter_keywords ord keywords)"
proof (intro conjI)
  show "set (filter_keywords ord keywords)
          = {w \<in> set keywords. w \<notin> {''AND'', ''OR'', ''NOT''} \<and> \<not> (w \<noteq> [] \<and> hd w = CHR ''-'')}"
    by (simp add: set_filter_keywords [OF assms] startswith_minus FTS_OPERATORS_def)
  show d: "distinct (filter_keywords ord keywords)"
    by (rule distinct_filter_keywords [OF assms])
  have "set (filter_keywords ord (filter_keywords ord keywords)) = set (filter_keywords ord keywords)"
    by (auto simp: set_filter_keywords [OF assms])
  with d distinct_filter_keywords [OF assms, of "filter_keywords ord keywords"]
  show "mset (filter_keywords ord (filter_keywords ord keywords)) = mset (filter_keywords ord keywords)"
    by (simp only: set_eq_iff_mset_eq_distinct)
qed

theorem filter_keywords_exact_witness:
  "set (filter_keywords insertion_order [''NOT'', ''light'', ''-dark'', ''and'', ''light''])
     = {''light'', ''and''}
   \<and> filter_keywords insertion_order [''NOT'', ''light'', ''-dark'', ''and'', ''light'']
     = [''light'', ''and'']"
proof -
  have "filter_keywords insertion_order [''NOT'', ''light'', ''-dark'', ''and'', ''light'']
     = [''light'', ''and'']"
    by (simp add: filter_keywords_def insertion_order_def FTS_OPERATORS_def startswith_def)
  with filter_keywords_exact [OF hash_order_ok_insertion, of "[''NOT'', ''light'', ''-dark'', ''and'', ''light'']"]
  show ?thesis by simp
qed


text \<open>
  Claim C4 says that the tokens that survive keep the relative order they have in
  the input. The code puts the tokens in a \<^verbatim>\<open>set\<close> first and iterates the set, so
  the order of the output is the order of the set, which is any order: with an
  order given by the length of the strings, \<^verbatim>\<open>light\<close> and \<^verbatim>\<open>dark\<close> come back as
  \<^verbatim>\<open>dark\<close>, \<^verbatim>\<open>light\<close>.
\<close>

theorem filter_keywords_order_counterexample:
  "hash_order_ok length_order
   \<and> filter_keywords length_order [''light'', ''dark''] = [''dark'', ''light'']
   \<and> \<not> subseq [''dark'', ''light''] [''light'', ''dark'']"
  by (simp add: hash_order_ok_length filter_keywords_def length_order_def FTS_OPERATORS_def
      startswith_def)


text \<open>
  C4, as amended: the output holds each surviving token once, in the iteration
  order of the set; it is a rearrangement of the surviving tokens of the input with
  the repetitions removed.
\<close>

theorem filter_keywords_permutation:
  assumes "hash_order_ok ord"
  shows "mset (filter_keywords ord keywords)
           = mset (remdups [w \<leftarrow> keywords. w \<notin> FTS_OPERATORS \<and> \<not> startswith w ''-''])"
proof -
  have "set (filter_keywords ord keywords)
          = set (remdups [w \<leftarrow> keywords. w \<notin> FTS_OPERATORS \<and> \<not> startswith w ''-''])"
    by (auto simp: set_filter_keywords [OF assms])
  moreover have "distinct (remdups [w \<leftarrow> keywords. w \<notin> FTS_OPERATORS \<and> \<not> startswith w ''-''])"
    by simp
  ultimately show ?thesis
    using distinct_filter_keywords [OF assms, of "keywords"]
    by (simp only: set_eq_iff_mset_eq_distinct)
qed

theorem filter_keywords_permutation_witness:
  "mset (filter_keywords length_order [''light'', ''OR'', ''dark'', ''light''])
     = {#''light'', ''dark''#}"
  using filter_keywords_permutation [OF hash_order_ok_length, of "[''light'', ''OR'', ''dark'', ''light'']"]
  by (simp add: FTS_OPERATORS_def startswith_def)

section \<open>Search in the JSON source\<close>

lemma startswith_iff: "startswith s p \<longleftrightarrow> (\<exists>post. s = p @ post)"
proof
  assume "startswith s p"
  then have "s = p @ drop (length p) s"
    by (metis append_take_drop_id startswith_def)
  then show "\<exists>post. s = p @ post" ..
next
  assume "\<exists>post. s = p @ post"
  then show "startswith s p" by (auto simp: startswith_def)
qed

lemma contains_iff: "contains text key \<longleftrightarrow> (\<exists>pre post. text = pre @ key @ post)"
proof (induction "text")
  case Nil
  then show ?case by simp
next
  case (Cons c cs)
  show ?case
  proof
    assume "contains (c # cs) key"
    then consider "startswith (c # cs) key" | "contains cs key" by auto
    then show "\<exists>pre post. c # cs = pre @ key @ post"
    proof cases
      case 1
      then obtain post where "c # cs = [] @ key @ post" by (auto simp: startswith_iff)
      then show ?thesis by blast
    next
      case 2
      with Cons.IH obtain pre post where "cs = pre @ key @ post" by auto
      then have "c # cs = (c # pre) @ key @ post" by simp
      then show ?thesis by blast
    qed
  next
    assume "\<exists>pre post. c # cs = pre @ key @ post"
    then obtain pre post where e: "c # cs = pre @ key @ post" by blast
    show "contains (c # cs) key"
    proof (cases pre)
      case Nil
      with e have "startswith (c # cs) key" by (auto simp: startswith_iff)
      then show ?thesis by simp
    next
      case (Cons a pre')
      with e have "cs = pre' @ key @ post" by simp
      with Cons.IH have "contains cs key" by blast
      then show ?thesis by simp
    qed
  qed
qed

text \<open>
  The tokens of \<^verbatim>\<open>str.split()\<close> are not empty and hold no whitespace, and words
  of this kind joined by single spaces are split into themselves.
\<close>

lemma isspace_space: "isspace (CHR '' '')"
  by (simp add: isspace_def)

lemma split_words_word:
  "\<not> list_ex isspace w \<Longrightarrow> split_words cur (w @ rest) = split_words (rev w @ cur) rest"
  by (induction w arbitrary: cur) auto

lemma split_words_clean:
  "w \<in> set (split_words cur s) \<Longrightarrow> \<not> list_ex isspace cur \<Longrightarrow> w \<noteq> [] \<and> \<not> list_ex isspace w"
proof (induction s arbitrary: cur)
  case Nil
  then show ?case by (auto split: if_splits simp: list_ex_iff)
next
  case (Cons a s)
  show ?case
  proof (cases "isspace a")
    case True
    with Cons.prems(1) have "(cur \<noteq> [] \<and> w = rev cur) \<or> w \<in> set (split_words [] s)"
      by (auto split: if_splits)
    with Cons.IH [of "[]"] Cons.prems(2) show ?thesis by (auto simp: list_ex_iff)
  next
    case False
    with Cons.prems(1) have "w \<in> set (split_words (a # cur) s)" by simp
    moreover from False Cons.prems(2) have "\<not> list_ex isspace (a # cur)" by simp
    ultimately show ?thesis by (rule Cons.IH)
  qed
qed

lemma py_split_tokens:
  "w \<in> set (py_split s) \<Longrightarrow> w \<noteq> [] \<and> \<not> list_ex isspace w"
  using split_words_clean [of w "[]" s] by (simp add: py_split_def)

lemma py_split_join:
  "list_all (\<lambda>w. w \<noteq> [] \<and> \<not> list_ex isspace w) ws \<Longrightarrow> py_split (join '' '' ws) = ws"
proof (induction "'' ''" ws rule: join.induct)
  case 1
  then show ?case by (simp add: py_split_def)
next
  case (2 x)
  then have "split_words [] (x @ []) = split_words (rev x @ []) []"
    by (intro split_words_word) simp
  with 2 show ?case by (simp add: py_split_def)
next
  case (3 x y ys)
  then have x: "x \<noteq> []" "\<not> list_ex isspace x" by simp_all
  from 3 have IH: "split_words [] (join '' '' (y # ys)) = y # ys"
    by (simp add: py_split_def)
  have "split_words [] (x @ CHR '' '' # join '' '' (y # ys))
          = split_words (rev x @ []) (CHR '' '' # join '' '' (y # ys))"
    by (rule split_words_word [OF x(2)])
  also have "\<dots> = x # split_words [] (join '' '' (y # ys))"
    using x(1) by (simp add: isspace_space)
  finally show ?case using IH by (simp add: py_split_def)
qed

lemma found_loop_all: "found_loop query text \<longleftrightarrow> list_all (contains text) query"
  by (induction query) auto

lemma search_loop_filter:
  "search_loop query verses result = result @ [v \<leftarrow> verses. found_loop query (row_text v)]"
  by (induction verses arbitrary: result) auto

lemma split_words_space: "list_all isspace s \<Longrightarrow> split_words [] s = []"
  by (induction s) auto

lemma example_load: "json_load example_env filename = Inr example_verses"
  by (simp add: example_env_def)


text \<open>
  Claim C6: for a JSON source, the search splits the query on whitespace and returns
  exactly the records whose text holds every token as a substring, letter for
  letter (case matters), in the order of the source; when no record holds every
  token the result is empty.
\<close>

theorem search_json_all_tokens:
  assumes "json_load e filename = Inr verses"
  shows "search_json e filename query
           = Inr [v \<leftarrow> verses. \<forall>tok \<in> set (py_split query). \<exists>pre post. row_text v = pre @ tok @ post]
         \<and> ((\<forall>v \<in> set verses. \<exists>tok \<in> set (py_split query). \<not> (\<exists>pre post. row_text v = pre @ tok @ post))
              \<longrightarrow> search_json e filename query = Inr [])"
proof -
  have "search_json e filename query
           = Inr [v \<leftarrow> verses. \<forall>tok \<in> set (py_split query). \<exists>pre post. row_text v = pre @ tok @ post]"
    using assms
    by (simp add: search_json_def search_loop_filter found_loop_all list_all_iff contains_iff)
  moreover have "[v \<leftarrow> verses. \<forall>tok \<in> set (py_split query). \<exists>pre post. row_text v = pre @ tok @ post] = []"
    if "\<forall>v \<in> set verses. \<exists>tok \<in> set (py_split query). \<not> (\<exists>pre post. row_text v = pre @ tok @ post)"
    using that by (auto simp: filter_empty_conv)
  ultimately show ?thesis by simp
qed

theorem search_json_all_tokens_witness:
  "search_json example_env ''verses.json'' ''light  God'' = Inr [example_verses ! 1]
   \<and> search_json example_env ''verses.json'' ''light god'' = Inr []"
proof -
  have s1: "py_split ''light  God'' = [''light'', ''God'']" and s2: "py_split ''light god'' = [''light'', ''god'']"
    by (simp_all add: py_split_def isspace_def)
  have c: "contains t k \<longleftrightarrow> (\<exists>pre post. t = pre @ k @ post)" for t k
    by (rule contains_iff)
  show ?thesis
    using search_json_all_tokens [OF example_load, of "''verses.json''" "''light  God''"]
      search_json_all_tokens [OF example_load, of "''verses.json''" "''light god''"]
    unfolding s1 s2 c [symmetric]
    by (simp add: example_verses_def startswith_def)
qed


text \<open>
  Claim C10: for a JSON source, a query that is empty or made of whitespace only
  has no token, and the search returns every record of the source.
\<close>

theorem search_json_blank_query:
  assumes "list_all isspace query" "json_load e filename = Inr verses"
  shows "search_json e filename query = Inr verses"
  using assms by (simp add: search_json_def py_split_def split_words_space search_loop_filter)

theorem search_json_blank_query_witness:
  "search_json example_env ''verses.json'' ''  '' = Inr example_verses
   \<and> search_json example_env ''verses.json'' [] = Inr example_verses"
proof -
  have b: "list_all isspace ''  ''" "list_all isspace []"
    by (simp_all add: isspace_def)
  from search_json_blank_query [OF b(1) example_load] search_json_blank_query [OF b(2) example_load]
  show ?thesis by simp
qed

section \<open>Backend selection\<close>

lemma endswith_last: "endswith s p \<Longrightarrow> p \<noteq> [] \<Longrightarrow> last s = last p"
  by (metis endswith_def last_drop length_greater_0_conv diff_less order.strict_trans2 drop_eq_Nil2 linorder_not_less)

lemma endswith_sqlite_not_json: "endswith filename ''sqlite'' \<Longrightarrow> \<not> endswith filename ''json''"
  using endswith_last [of filename "''sqlite''"] endswith_last [of filename "''json''"] by auto


text \<open>
  Claim C9: the backend is chosen by the last characters of the file name alone,
  with no dot asked for. For a name that ends in \<^verbatim>\<open>json\<close> (as \<^verbatim>\<open>versesjson\<close> does) each
  command is what the rest of its body makes of the answer of the JSON function,
  for a name that ends in \<^verbatim>\<open>sqlite\<close> of the answer of the SQLite function, and for
  every other name no branch assigns \<^verbatim>\<open>result\<close>: both commands end in the uncaught
  \<^verbatim>\<open>UnboundLocalError\<close> (a \<^verbatim>\<open>NameError\<close>, exit status 1), which is not the usage error
  of argument validation (exit status 2).
\<close>

theorem backend_selection:
  "(endswith filename ''json'' \<longrightarrow>
      lookup e filename key output
        = (case lookup_json e filename key of
             Inl x \<Rightarrow> Inl x
           | Inr result \<Rightarrow>
               if result \<noteq> [] then
                 (if output = ''plain'' then render_plain e result None
                  else if output = ''json'' then Inr (render_json result)
                  else Inr [])
               else Inl (UsageError (key @ '' not found'')))
      \<and> search e filename keywords output
        = (case search_json e filename (join '' '' keywords) of
             Inl x \<Rightarrow> Inl x
           | Inr result \<Rightarrow>
               if result \<noteq> [] then
                 (if output = ''plain'' then
                    render_plain e result
                      (Some (filter_keywords (hash_order e) (py_split (join '' '' keywords))))
                  else if output = ''json'' then Inr (render_json result)
                  else Inr [])
               else Inl (UsageError (''No matches found for: '' @ join '' '' keywords))))
   \<and> (endswith filename ''sqlite'' \<longrightarrow>
      lookup e filename key output
        = (case lookup_sqlite e filename key of
             Inl x \<Rightarrow> Inl x
           | Inr result \<Rightarrow>
               if result \<noteq> [] then
                 (if output = ''plain'' then render_plain e result None
                  else if output = ''json'' then Inr (render_json result)
                  else Inr [])
               else Inl (UsageError (key @ '' not found'')))
      \<and> search e filename keywords output
        = (case search_sqlite e filename (join '' '' keywords) of
             Inl x \<Rightarrow> Inl x
           | Inr result \<Rightarrow>
               if result \<noteq> [] then
                 (if output = ''plain'' then
                    render_plain e result
                      (Some (filter_keywords (hash_order e) (py_split (join '' '' keywords))))
                  else if output = ''json'' then Inr (render_json result)
                  else Inr [])
               else Inl (UsageError (''No matches found for: '' @ join '' '' keywords))))
   \<and> (\<not> endswith filename ''json'' \<and> \<not> endswith filename ''sqlite'' \<longrightarrow>
      lookup e filename key output = Inl UnboundLocalError
      \<and> search e filename keywords output = Inl UnboundLocalError
      \<and> exit_status (lookup e filename key output) = 1
      \<and> exit_status (search e filename keywords output) = 1)"
proof (intro conjI impI)
  assume j: "endswith filename ''json''"
  then show "lookup e filename key output
        = (case lookup_json e filename key of
             Inl x \<Rightarrow> Inl x
           | Inr result \<Rightarrow>
               if result \<noteq> [] then
                 (if output = ''plain'' then render_plain e result None
                  else if output = ''json'' then Inr (render_json result)
                  else Inr [])
               else Inl (UsageError (key @ '' not found'')))"
    by (simp add: lookup_def)
  from j show "search e filename keywords output
        = (case search_json e filename (join '' '' keywords) of
             Inl x \<Rightarrow> Inl x
           | Inr result \<Rightarrow>
               if result \<noteq> [] then
                 (if output = ''plain'' then
                    render_plain e result
                      (Some (filter_keywords (hash_order e) (py_split (join '' '' keywords))))
                  else if output = ''json'' then Inr (render_json result)
                  else Inr [])
               else Inl (UsageError (''No matches found for: '' @ join '' '' keywords)))"
    by (simp add: search_def Let_def)
next
  assume s: "endswith filename ''sqlite''"
  then have nj: "\<not> endswith filename ''json''"
    by (rule endswith_sqlite_not_json)
  from s nj show "lookup e filename key output
        = (case lookup_sqlite e filename key of
             Inl x \<Rightarrow> Inl x
           | Inr result \<Rightarrow>
               if result \<noteq> [] then
                 (if output = ''plain'' then render_plain e result None
                  else if output = ''json'' then Inr (render_json result)
                  else Inr [])
               else Inl (UsageError (key @ '' not found'')))"
    by (simp add: lookup_def)
  from s nj show "search e filename keywords output
        = (case search_sqlite e filename (join '' '' keywords) of
             Inl x \<Rightarrow> Inl x
           | Inr result \<Rightarrow>
               if result \<noteq> [] then
                 (if output = ''plain'' then
                    render_plain e result
                      (Some (filter_keywords (hash_order e) (py_split (join '' '' keywords))))
                  else if output = ''json'' then Inr (render_json result)
                  else Inr [])
               else Inl (UsageError (''No matches found for: '' @ join '' '' keywords)))"
    by (simp add: search_def Let_def)
next
  assume n: "\<not> endswith filename ''json'' \<and> \<not> endswith filename ''sqlite''"
  then show l: "lookup e filename key output = Inl UnboundLocalError"
    by (simp add: lookup_def)
  from n show r: "search e filename keywords output = Inl UnboundLocalError"
    by (simp add: search_def Let_def)
  show "exit_status (lookup e filename key output) = 1"
    by (simp add: l exit_status_def)
  show "exit_status (search e filename keywords output) = 1"
    by (simp add: r exit_status_def)
qed

theorem backend_selection_witness:
  "lookup store_env ''versesjson'' ''Genesis 1:1'' ''json''
     = Inr [Print_json [row_to_dict (example_verses ! 0)]]
   \<and> lookup store_env ''bible.sqlite'' ''John 8:12'' ''json''
     = Inr [Print_json [[(''book'', JStr ''John''), (''chapter'', JInt 8), (''verse'', JInt 12),
                         (''text'', JStr ''I am the light of the world'')]]]
   \<and> search store_env ''versesjson'' [''beginning''] ''json''
     = Inr [Print_json [row_to_dict (example_verses ! 0)]]
   \<and> search store_env ''bible.sqlite'' [''beginning''] ''json''
     = Inr [Print_json [[(''book'', JStr ''John''), (''chapter'', JInt 8), (''verse'', JInt 12),
                         (''text'', JStr ''I am the light of the world'')]]]
   \<and> lookup store_env ''verses.txt'' ''Genesis 1:1'' ''plain'' = Inl UnboundLocalError
   \<and> search store_env ''verses.txt'' [''light''] ''plain'' = Inl UnboundLocalError"
proof -
  have j: "endswith ''versesjson'' ''json''" and s: "endswith ''bible.sqlite'' ''sqlite''"
    and t: "\<not> endswith ''verses.txt'' ''json''" "\<not> endswith ''verses.txt'' ''sqlite''"
    by (simp_all add: endswith_def)
  have k1: "split_key ''Genesis 1:1'' = Inr (Some (''Genesis'', Some 1, Some 1))"
    and k2: "split_key ''John 8:12'' = Inr (Some (''John'', Some 8, Some 12))"
    by (simp_all add: split_key_eval)
  have q: "py_split ''beginning'' = [''beginning'']"
    by (simp add: py_split_def isspace_def)
  have lj: "lookup_json store_env ''versesjson'' ''Genesis 1:1'' = Inr [example_verses ! 0]"
    unfolding lookup_json_def k1
    by (simp add: store_env_def example_env_def example_verses_def truthy_def)
  have ls: "lookup_sqlite store_env ''bible.sqlite'' ''John 8:12''
      = Inr [\<lparr>row_book = ''John'', row_chapter = 8, row_verse = 12,
               row_text = ''I am the light of the world''\<rparr>]"
    unfolding lookup_sqlite_def k2
    by (simp add: store_env_def example_env_def truthy_def int64_def)
  have sj: "search_json store_env ''versesjson'' (join '' '' [''beginning'']) = Inr [example_verses ! 0]"
    unfolding search_json_def join.simps q
    by (simp add: store_env_def example_env_def example_verses_def startswith_def)
  have ss: "search_sqlite store_env ''bible.sqlite'' (join '' '' [''beginning''])
      = Inr [\<lparr>row_book = ''John'', row_chapter = 8, row_verse = 12,
               row_text = ''I am the light of the world''\<rparr>]"
    by (simp add: search_sqlite_def store_env_def)
  note a = backend_selection [of "''versesjson''" store_env "''Genesis 1:1''" "''json''" "[''beginning'']"]
  note b = backend_selection [of "''bible.sqlite''" store_env "''John 8:12''" "''json''" "[''beginning'']"]
  note c = backend_selection [of "''verses.txt''" store_env "''Genesis 1:1''" "''plain''" "[''light'']"]
  from a j lj sj have 1: "lookup store_env ''versesjson'' ''Genesis 1:1'' ''json''
     = Inr [Print_json [row_to_dict (example_verses ! 0)]]"
    and 3: "search store_env ''versesjson'' [''beginning''] ''json''
     = Inr [Print_json [row_to_dict (example_verses ! 0)]]"
    by (simp_all add: render_json_def)
  from b s ls ss have 2: "lookup store_env ''bible.sqlite'' ''John 8:12'' ''json''
     = Inr [Print_json [[(''book'', JStr ''John''), (''chapter'', JInt 8), (''verse'', JInt 12),
                         (''text'', JStr ''I am the light of the world'')]]]"
    and 4: "search store_env ''bible.sqlite'' [''beginning''] ''json''
     = Inr [Print_json [[(''book'', JStr ''John''), (''chapter'', JInt 8), (''verse'', JInt 12),
                         (''text'', JStr ''I am the light of the world'')]]]"
    by (simp_all add: render_json_def row_to_dict_def)
  from c t have 5: "lookup store_env ''verses.txt'' ''Genesis 1:1'' ''plain'' = Inl UnboundLocalError"
    and 6: "search store_env ''verses.txt'' [''light''] ''plain'' = Inl UnboundLocalError"
    by simp_all
  from 1 2 3 4 5 6 show ?thesis by simp
qed

section \<open>Lookup by key\<close>

text \<open>
  Where the verse of the key is not zero, the JSON lookup returns only records of
  the book, chapter and verse of the key.
\<close>

lemma lookup_json_nonzero_verse:
  assumes "split_key key = Inr (Some (book, Some c, Some v))" "v \<noteq> 0"
    and "lookup_json e filename key = Inr rs"
  shows "list_all (\<lambda>r. row_book r = book \<and> row_chapter r = c \<and> row_verse r = v) rs"
  using assms by (auto simp: lookup_json_def truthy_def list_all_iff split: sum.splits)


text \<open>
  Claim C5 says that a lookup with a key that names book, chapter and verse returns
  the one record with these three values or nothing, and never a record of another
  verse. The code tests \<^verbatim>\<open>if verse:\<close>, which fails for the verse 0 as it does for
  \<^verbatim>\<open>None\<close>; the key \<^verbatim>\<open>Genesis 1:0\<close> is then looked up as the chapter \<^verbatim>\<open>Genesis 1\<close>, and
  both backends return the records of the verses 1 and 3 of that chapter.
\<close>

theorem lookup_verse_zero:
  "split_key ''Genesis 1:0'' = Inr (Some (''Genesis'', Some 1, Some 0))
   \<and> lookup_json example_env ''verses.json'' ''Genesis 1:0'' = Inr [example_verses ! 0, example_verses ! 1]
   \<and> lookup_sqlite example_env ''verses.sqlite'' ''Genesis 1:0'' = Inr [example_verses ! 0, example_verses ! 1]
   \<and> map row_verse [example_verses ! 0, example_verses ! 1] = [1, 3]"
proof -
  have k: "split_key ''Genesis 1:0'' = Inr (Some (''Genesis'', Some 1, Some 0))"
    by (simp add: split_key_eval)
  show ?thesis
    unfolding k lookup_json_def lookup_sqlite_def
    by (simp add: example_env_def example_verses_def truthy_def int64_def)
qed


section \<open>Highlighting\<close>

text \<open>
  Claim C1 says that plain rendering with keywords wraps every occurrence of each
  keyword, whatever its case, in the two markers. The code hands \<^verbatim>\<open>re.IGNORECASE\<close>
  to \<^verbatim>\<open>re.sub\<close> as its fourth positional argument, the count: the match is made with
  case, and at most two occurrences are replaced. In \<^verbatim>\<open>Light is light\<close> the first
  word stays as it is, and in \<^verbatim>\<open>light light light\<close> the third does.
\<close>

theorem colorize_matches_case_and_count:
  "colorize_matches e ''Light is light'' [''light'']
     = Inr (''Light is '' @ term_red e @ ''light'' @ term_normal e)
   \<and> colorize_matches e ''light light light'' [''light'']
     = Inr (term_red e @ ''light'' @ term_normal e @ '' '' @ term_red e @ ''light'' @ term_normal e @ '' light'')
   \<and> render_plain example_env
        [\<lparr>row_book = ''John'', row_chapter = 8, row_verse = 12, row_text = ''Light is light''\<rparr>]
        (Some [''light''])
     = Inr [Secho_bold ''John 8:12: '',
            Echo (''Light is '' @ term_red example_env @ ''light'' @ term_normal example_env)]"
proof -
  have c: "colorize_matches e ''Light is light'' [''light'']
     = Inr (''Light is '' @ term_red e @ ''light'' @ term_normal e)" for e
    by (simp add: re_sub_def regex_special_def IGNORECASE_def COLORIZE_REPLACEMENT_def sub_loop.simps)
  have d: "colorize_matches e ''light light light'' [''light'']
     = Inr (term_red e @ ''light'' @ term_normal e @ '' '' @ term_red e @ ''light'' @ term_normal e @ '' light'')"
    by (simp add: re_sub_def regex_special_def IGNORECASE_def COLORIZE_REPLACEMENT_def sub_loop.simps)
  have h: "hash_order example_env = insertion_order"
    by (simp add: example_env_def)
  have f: "filter_keywords insertion_order [''light''] = [''light'']"
    by (simp add: filter_keywords_def insertion_order_def FTS_OPERATORS_def startswith_def)
  have r: "render_plain example_env
        [\<lparr>row_book = ''John'', row_chapter = 8, row_verse = 12, row_text = ''Light is light''\<rparr>]
        (Some [''light''])
     = Inr [Secho_bold ''John 8:12: '',
            Echo (''Light is '' @ term_red example_env @ ''light'' @ term_normal example_env)]"
    by (simp del: colorize_matches.simps
        add: render_plain_def h f c row_prefix_def str_int_def str_nat.simps digit_char_def)
  from c d r show ?thesis by simp
qed

section \<open>The outcome of the commands\<close>

lemma lookup_via_result:
  "lookup e filename key output =
     (case lookup_result e filename key of
        Inl x \<Rightarrow> Inl x
      | Inr result \<Rightarrow>
          if result \<noteq> [] then
            (if output = ''plain'' then render_plain e result None
             else if output = ''json'' then Inr (render_json result)
             else Inr [])
          else Inl (UsageError (key @ '' not found'')))"
  by (simp add: lookup_def lookup_result_def)

lemma search_via_result:
  "search e filename keywords output =
     (case search_result e filename (join '' '' keywords) of
        Inl x \<Rightarrow> Inl x
      | Inr result \<Rightarrow>
          if result \<noteq> [] then
            (if output = ''plain'' then
               render_plain e result
                 (Some (filter_keywords (hash_order e) (py_split (join '' '' keywords))))
             else if output = ''json'' then Inr (render_json result)
             else Inr [])
          else Inl (UsageError (''No matches found for: '' @ join '' '' keywords)))"
  by (simp add: search_def search_result_def Let_def)

lemma render_rows_None:
  "render_rows e rows None = Inr (concat (map (\<lambda>r. [Secho_bold (row_prefix r), Echo (row_text r)]) rows))"
  by (induction rows) auto

lemma render_rows_Nil:
  "render_rows e rows (Some []) = Inr (concat (map (\<lambda>r. [Secho_bold (row_prefix r), Echo (row_text r)]) rows))"
  by (induction rows) auto

lemma render_plain_None:
  "render_plain e rows None = Inr (concat (map (\<lambda>r. [Secho_bold (row_prefix r), Echo (row_text r)]) rows))"
  by (simp add: render_plain_def render_rows_None)

text \<open>
  A keyword with no special character is taken by \<^verbatim>\<open>re.sub\<close>.
\<close>

lemma re_sub_plain:
  assumes "\<not> list_ex regex_special keyword"
  shows "\<exists>s'. re_sub e keyword repl s cnt = Inr s'"
proof -
  have "\<not> (keyword \<noteq> [] \<and> hd keyword \<in> set ''*+?'')"
  proof
    assume a: "keyword \<noteq> [] \<and> hd keyword \<in> set ''*+?''"
    then have "regex_special (hd keyword)" by (auto simp: regex_special_def)
    moreover from a have "hd keyword \<in> set keyword" by simp
    ultimately show False using assms by (auto simp: list_ex_iff)
  qed
  with assms show ?thesis by (simp add: re_sub_def)
qed

lemma re_accepts_plain: "\<not> list_ex regex_special keyword \<Longrightarrow> re_accepts e keyword"
  unfolding re_accepts_def by (intro allI re_sub_plain)

lemma colorize_matches_accepts:
  "list_all (re_accepts e) keywords \<Longrightarrow> \<exists>s'. colorize_matches e s keywords = Inr s'"
proof (induction "keywords" arbitrary: s)
  case Nil
  then show ?case by simp
next
  case (Cons k ks)
  then have "re_accepts e k" by simp
  then obtain s' where "re_sub e k (COLORIZE_REPLACEMENT e) s IGNORECASE = Inr s'"
    unfolding re_accepts_def by blast
  moreover from Cons have "\<exists>s''. colorize_matches e s' ks = Inr s''" by simp
  ultimately show ?case by simp
qed

lemma render_rows_accepts:
  assumes "list_all (re_accepts e) keywords"
  shows "\<exists>out. render_rows e rows (Some keywords) = Inr out"
proof (cases "keywords")
  case Nil
  then show ?thesis by (simp add: render_rows_Nil)
next
  case (Cons k ks)
  show ?thesis
  proof (induction rows)
    case Nil
    then show ?case by simp
  next
    case (Cons row rows)
    from colorize_matches_accepts [OF assms, of "row_text row"]
    obtain t where "colorize_matches e (row_text row) keywords = Inr t" by blast
    with Cons \<open>keywords = k # ks\<close> show ?case by auto
  qed
qed

lemma set_filter_keywords_subset:
  "hash_order_ok ord \<Longrightarrow> set (filter_keywords ord keywords) \<subseteq> set keywords"
  by (auto simp: filter_keywords_def hash_order_ok_def Let_def)

lemma filter_keywords_accepts:
  assumes "hash_order_ok ord" "list_all (re_accepts e) keywords"
  shows "list_all (re_accepts e) (filter_keywords ord keywords)"
  using assms(2) set_filter_keywords_subset [OF assms(1), of "keywords"]
  by (auto simp: list_all_iff)

lemma render_plain_accepts:
  assumes "hash_order_ok (hash_order e)" "list_all (re_accepts e) keywords"
  shows "\<exists>out. render_plain e rows (Some keywords) = Inr out"
proof -
  note f = filter_keywords_accepts [OF assms]
  from render_rows_accepts [OF f] render_rows_accepts [OF assms(2)] show ?thesis
    by (cases "keywords") (simp_all add: render_plain_def render_rows_Nil)
qed

text \<open>
  The keywords of a search are handed to \<^verbatim>\<open>re.sub\<close> as they are, though the JSON
  search has looked for them letter by letter: the search for \<^verbatim>\<open>?\<close> finds the verse
  with the question and then ends in the uncaught \<^verbatim>\<open>re.error\<close>.
\<close>

lemma search_question_mark:
  "search_result example_env ''verses.json'' (join '' '' [''?'']) = Inr [example_verses ! 2]
   \<and> search example_env ''verses.json'' [''?''] ''plain'' = Inl Re_error
   \<and> exit_status (search example_env ''verses.json'' [''?''] ''plain'') = 1"
proof -
  have j: "endswith ''verses.json'' ''json''"
    by (simp add: endswith_def)
  have q: "py_split ''?'' = [''?'']"
    by (simp add: py_split_def isspace_def)
  have s: "search_result example_env ''verses.json'' ''?'' = Inr [example_verses ! 2]"
    unfolding search_result_def search_json_def q
    by (simp add: j example_env_def example_verses_def startswith_def)
  have f: "filter_keywords insertion_order [''?''] = [''?'']"
    by (simp add: filter_keywords_def insertion_order_def FTS_OPERATORS_def startswith_def)
  have h: "hash_order example_env = insertion_order"
    by (simp add: example_env_def)
  have r: "search example_env ''verses.json'' [''?''] ''plain'' = Inl Re_error"
    unfolding search_via_result
    by (simp add: s q f h render_plain_def re_sub_def)
  from s r show ?thesis
    by (simp add: exit_status_def)
qed

text \<open>
  Claim C7 says that a command ends in a usage error that names the key or the query
  when the backend returns no record, and that it renders the records as
  \<^verbatim>\<open>--output\<close> says and ends with status 0 when the backend returns some. The option
  \<^verbatim>\<open>--output\<close> takes any string, and the body has a branch for \<^verbatim>\<open>plain\<close> and one for
  \<^verbatim>\<open>json\<close> only: with \<^verbatim>\<open>xml\<close> the record that the lookup has found is not rendered.
\<close>

theorem lookup_output_xml:
  "lookup_result example_env ''verses.json'' ''Genesis 1:1'' = Inr [example_verses ! 0]
   \<and> lookup example_env ''verses.json'' ''Genesis 1:1'' ''xml'' = Inr []"
proof -
  have k: "split_key ''Genesis 1:1'' = Inr (Some (''Genesis'', Some 1, Some 1))"
    by (simp add: split_key_eval)
  have j: "endswith ''verses.json'' ''json''"
    by (simp add: endswith_def)
  have l: "lookup_result example_env ''verses.json'' ''Genesis 1:1'' = Inr [example_verses ! 0]"
    unfolding lookup_result_def lookup_json_def k
    by (simp add: j example_env_def example_verses_def truthy_def)
  then show ?thesis
    by (simp add: lookup_via_result)
qed

text \<open>
  C7, as amended: when the backend returns no record, the command raises the usage
  error that names the key (\<^verbatim>\<open>lookup\<close>) or the query (\<^verbatim>\<open>search\<close>) and ends with status
  2. When the backend returns records, \<^verbatim>\<open>lookup\<close> prints them in plain form for
  \<^verbatim>\<open>plain\<close>, as JSON for \<^verbatim>\<open>json\<close>, prints nothing for any other value, and ends with
  status 0; \<^verbatim>\<open>search\<close> does the same, with the filtered keywords coloured in the plain
  form, and ends with status 0 whenever the output is not plain or \<^verbatim>\<open>re.sub\<close> takes
  every word of the query as a pattern.
\<close>

theorem dispatch_outcomes:
  assumes "hash_order_ok (hash_order e)"
  shows "(lookup_result e filename key = Inr [] \<longrightarrow>
            lookup e filename key output = Inl (UsageError (key @ '' not found''))
            \<and> exit_status (lookup e filename key output) = 2)
       \<and> (search_result e filename (join '' '' keywords) = Inr [] \<longrightarrow>
            search e filename keywords output
              = Inl (UsageError (''No matches found for: '' @ join '' '' keywords))
            \<and> exit_status (search e filename keywords output) = 2)
       \<and> (lookup_result e filename key = Inr rs \<and> rs \<noteq> [] \<longrightarrow>
            lookup e filename key output
              = Inr (if output = ''plain'' then
                       concat (map (\<lambda>r. [Secho_bold (row_prefix r), Echo (row_text r)]) rs)
                     else if output = ''json'' then render_json rs
                     else [])
            \<and> exit_status (lookup e filename key output) = 0)
       \<and> (search_result e filename (join '' '' keywords) = Inr rs \<and> rs \<noteq> [] \<longrightarrow>
            search e filename keywords output
              = (if output = ''plain'' then
                   render_plain e rs (Some (filter_keywords (hash_order e) (py_split (join '' '' keywords))))
                 else if output = ''json'' then Inr (render_json rs)
                 else Inr [])
            \<and> (output \<noteq> ''plain'' \<or> list_all (re_accepts e) (py_split (join '' '' keywords)) \<longrightarrow>
                 exit_status (search e filename keywords output) = 0))"
proof (intro conjI impI)
  assume "lookup_result e filename key = Inr []"
  then show "lookup e filename key output = Inl (UsageError (key @ '' not found''))"
    and "exit_status (lookup e filename key output) = 2"
    by (simp_all add: lookup_via_result exit_status_def)
next
  assume "search_result e filename (join '' '' keywords) = Inr []"
  then show "search e filename keywords output
              = Inl (UsageError (''No matches found for: '' @ join '' '' keywords))"
    and "exit_status (search e filename keywords output) = 2"
    by (simp_all add: search_via_result exit_status_def)
next
  assume "lookup_result e filename key = Inr rs \<and> rs \<noteq> []"
  then show "lookup e filename key output
              = Inr (if output = ''plain'' then
                       concat (map (\<lambda>r. [Secho_bold (row_prefix r), Echo (row_text r)]) rs)
                     else if output = ''json'' then render_json rs
                     else [])"
    and "exit_status (lookup e filename key output) = 0"
    by (simp_all add: lookup_via_result exit_status_def render_plain_None)
next
  assume a: "search_result e filename (join '' '' keywords) = Inr rs \<and> rs \<noteq> []"
  then show eq: "search e filename keywords output
              = (if output = ''plain'' then
                   render_plain e rs (Some (filter_keywords (hash_order e) (py_split (join '' '' keywords))))
                 else if output = ''json'' then Inr (render_json rs)
                 else Inr [])"
    by (simp add: search_via_result)
  assume b: "output \<noteq> ''plain'' \<or> list_all (re_accepts e) (py_split (join '' '' keywords))"
  show "exit_status (search e filename keywords output) = 0"
  proof (cases "output = ''plain''")
    case True
    with b have "list_all (re_accepts e) (py_split (join '' '' keywords))" by simp
    from render_plain_accepts [OF assms filter_keywords_accepts [OF assms this], of rs]
    obtain out where "render_plain e rs (Some (filter_keywords (hash_order e) (py_split (join '' '' keywords)))) = Inr out"
      by blast
    with eq True show ?thesis by (simp add: exit_status_def)
  next
    case False
    with eq show ?thesis by (simp add: exit_status_def)
  qed
qed

theorem dispatch_outcomes_witness:
  "lookup example_env ''verses.json'' ''Exodus 1:1'' ''plain'' = Inl (UsageError ''Exodus 1:1 not found'')
   \<and> search example_env ''verses.json'' [''darkness''] ''plain''
       = Inl (UsageError ''No matches found for: darkness'')
   \<and> lookup example_env ''verses.json'' ''Genesis 1:1'' ''plain''
       = Inr [Secho_bold ''Genesis 1:1: '',
              Echo ''In the beginning God created the heaven and the earth.'']
   \<and> exit_status (search example_env ''verses.json'' [''light''] ''plain'') = 0"
proof -
  have ok: "hash_order_ok (hash_order example_env)"
    by (simp add: example_env_def hash_order_ok_insertion)
  have j: "endswith ''verses.json'' ''json''"
    by (simp add: endswith_def)
  have k1: "split_key ''Exodus 1:1'' = Inr (Some (''Exodus'', Some 1, Some 1))"
    and k2: "split_key ''Genesis 1:1'' = Inr (Some (''Genesis'', Some 1, Some 1))"
    by (simp_all add: split_key_eval)
  have q1: "py_split ''darkness'' = [''darkness'']" and q2: "py_split ''light'' = [''light'']"
    by (simp_all add: py_split_def isspace_def)
  have l1: "lookup_result example_env ''verses.json'' ''Exodus 1:1'' = Inr []"
    unfolding lookup_result_def lookup_json_def k1
    by (simp add: j example_env_def example_verses_def truthy_def)
  have l2: "lookup_result example_env ''verses.json'' ''Genesis 1:1'' = Inr [example_verses ! 0]"
    unfolding lookup_result_def lookup_json_def k2
    by (simp add: j example_env_def example_verses_def truthy_def)
  have s1: "search_result example_env ''verses.json'' (join '' '' [''darkness'']) = Inr []"
    unfolding search_result_def search_json_def join.simps q1
    by (simp add: j example_env_def example_verses_def startswith_def)
  have s2: "search_result example_env ''verses.json'' (join '' '' [''light'']) = Inr [example_verses ! 1]"
    unfolding search_result_def search_json_def join.simps q2
    by (simp add: j example_env_def example_verses_def startswith_def)
  have "\<not> list_ex regex_special ''light''"
    by (simp add: regex_special_def)
  then have "re_accepts example_env ''light''"
    by (rule re_accepts_plain)
  then have p: "list_all (re_accepts example_env) (py_split (join '' '' [''light'']))"
    by (simp add: q2)
  have x: "row_prefix (example_verses ! 0) = ''Genesis 1:1: ''" "row_text (example_verses ! 0) = ''In the beginning God created the heaven and the earth.''"
    by (simp_all add: example_verses_def row_prefix_def str_int_def str_nat.simps digit_char_def)
  from dispatch_outcomes [OF ok, of "''verses.json''" "''Exodus 1:1''" "''plain''"] l1
  have a: "lookup example_env ''verses.json'' ''Exodus 1:1'' ''plain'' = Inl (UsageError ''Exodus 1:1 not found'')"
    by simp
  from dispatch_outcomes [OF ok, of "''verses.json''" _ "''plain''" "[''darkness'']"] s1
  have b: "search example_env ''verses.json'' [''darkness''] ''plain''
       = Inl (UsageError ''No matches found for: darkness'')"
    by simp
  from dispatch_outcomes [OF ok, of "''verses.json''" "''Genesis 1:1''" "''plain''" _ "[example_verses ! 0]"] l2
  have c: "lookup example_env ''verses.json'' ''Genesis 1:1'' ''plain''
       = Inr [Secho_bold ''Genesis 1:1: '',
              Echo ''In the beginning God created the heaven and the earth.'']"
    by (simp add: x)
  note t = dispatch_outcomes [OF ok, of "''verses.json''" _ "''plain''" "[''light'']" "[example_verses ! 1]"]
  have pre: "search_result example_env ''verses.json'' (join '' '' [''light'']) = Inr [example_verses ! 1]
      \<and> [example_verses ! 1] \<noteq> []"
    using s2 by simp
  have "(''plain'' \<noteq> ''plain'' \<or> list_all (re_accepts example_env) (py_split (join '' '' [''light''])))
      \<longrightarrow> exit_status (search example_env ''verses.json'' [''light''] ''plain'') = 0"
    by (rule conjunct2 [OF mp [OF t [THEN conjunct2, THEN conjunct2, THEN conjunct2] pre]])
  moreover have "''plain'' \<noteq> ''plain'' \<or> list_all (re_accepts example_env) (py_split (join '' '' [''light'']))"
    by (rule disjI2) (rule p)
  ultimately have d: "exit_status (search example_env ''verses.json'' [''light''] ''plain'') = 0"
    by (rule mp)
  from a b c d show ?thesis by simp
qed

end
